theory Spec2Isabelle
  imports Main "HOL-Library.Word"
begin

section \<open>The event hub (src/event/hub.go)\<close>

text \<open>
  An \<open>Event\<close> is a Go interface value: \<open>None\<close> is the nil interface, the zero value a
  slot holds until an event is stored in it. The channel \<open>occurred\<close> of a slot is only ever
  closed, never sent on, so it is modelled by one bit: \<open>True\<close> once it has been closed
  (a receive from it is then ready).
\<close>

type_synonym 'e Event = "'e option"

record 'e eventOccurrence =
  event :: "'e Event"
  occurred :: bool

record 'e Hub =
  events :: "'e eventOccurrence list"
  closed :: bool

text \<open>The run-time panics the hub's methods could raise: indexing a slice out of range and
  closing a channel that is closed already.\<close>

datatype panic = IndexOutOfRange | CloseOfClosedChannel

definition NewHub :: "'e Hub" where
  "NewHub = \<lparr>events = [\<lparr>event = None, occurred = False\<rparr>], closed = False\<rparr>"

text \<open>
  \<open>EmitEvent\<close>: return at once on a closed hub; otherwise take the last slot (a panic on an
  empty slice), store the event in it, append a fresh slot, and close the channel of the slot
  just written (a panic when it is closed already). The mutex makes the body atomic.
\<close>

definition EmitEvent :: "'e Event \<Rightarrow> 'e Hub \<Rightarrow> panic + 'e Hub" where
  "EmitEvent ev h =
     (if closed h then Inr h
      else if events h = [] then Inl IndexOutOfRange
      else
        let n = length (events h) - 1;
            occ = (events h ! n)\<lparr>event := ev\<rparr>;
            nextOcc = \<lparr>event = None, occurred = False\<rparr>;
            evs = (events h)[n := occ] @ [nextOcc]
        in if occurred occ then Inl CloseOfClosedChannel
           else Inr (h\<lparr>events := evs[n := occ\<lparr>occurred := True\<rparr>]\<rparr>))"

text \<open>
  \<open>Close\<close>: return at once on a closed hub; otherwise set the flag, take the last slot and
  close its channel, leaving its event nil.
\<close>

definition Close :: "'e Hub \<Rightarrow> panic + 'e Hub" where
  "Close h =
     (if closed h then Inr h
      else if events h = [] then Inl IndexOutOfRange
      else
        let n = length (events h) - 1;
            occ = events h ! n
        in if occurred occ then Inl CloseOfClosedChannel
           else Inr (h\<lparr>closed := True, events := (events h)[n := occ\<lparr>occurred := True\<rparr>]\<rparr>))"

subsection \<open>Sequences of producer calls\<close>

datatype 'e hub_op = OpEmit "'e Event" | OpClose

fun apply_op :: "'e hub_op \<Rightarrow> 'e Hub \<Rightarrow> panic + 'e Hub" where
  "apply_op (OpEmit ev) h = EmitEvent ev h"
| "apply_op OpClose h = Close h"

fun apply_ops :: "'e hub_op list \<Rightarrow> 'e Hub \<Rightarrow> panic + 'e Hub" where
  "apply_ops [] h = Inr h"
| "apply_ops (x # xs) h =
     (case apply_op x h of Inl p \<Rightarrow> Inl p | Inr h' \<Rightarrow> apply_ops xs h')"

text \<open>The events that a sequence of calls records: those emitted before the first \<open>Close\<close>.\<close>

fun recorded :: "'e hub_op list \<Rightarrow> 'e Event list" where
  "recorded [] = []"
| "recorded (OpEmit ev # xs) = ev # recorded xs"
| "recorded (OpClose # xs) = []"

text \<open>The log holding the events \<open>es\<close>: one signalled slot for each, then the trailing slot,
  with no event, signalled exactly when the hub has been closed.\<close>

definition filled :: "'e Event \<Rightarrow> 'e eventOccurrence" where
  "filled ev = \<lparr>event = ev, occurred = True\<rparr>"

definition log_of :: "'e Event list \<Rightarrow> bool \<Rightarrow> 'e eventOccurrence list" where
  "log_of es c = map filled es @ [\<lparr>event = None, occurred = c\<rparr>]"

definition hub_of :: "'e Event list \<Rightarrow> bool \<Rightarrow> 'e Hub" where
  "hub_of es c = \<lparr>events = log_of es c, closed = c\<rparr>"

subsection \<open>Subscribers\<close>

text \<open>
  \<open>Subscribe\<close> runs concurrently with the producer, so it is a small-step machine. Its
  program points are the bounds check at the head of the loop (under the read lock), the first
  \<open>select\<close> (waiting for the slot's channel or for \<open>stop\<close>) and the second \<open>select\<close>
  (sending on \<open>dest\<close> or receiving from \<open>stop\<close>). The index \<open>i\<close> is a \<open>uint\<close>; it is
  incremented only after \<open>i < len(h.events)\<close> was checked, and a slice length fits an
  \<open>int\<close>, so the increment never wraps and \<open>nat\<close> is exact.

  \<open>sent\<close> lists the values sent on \<open>dest\<close>, oldest first (the receiver is taken to be
  ready whenever the send is chosen); \<open>dest_closed\<close> tells whether \<open>dest\<close> was closed.
\<close>

datatype loc = AtCheck nat | AtWait nat | AtSend nat | Returned

record 'e subscriber =
  pc :: loc
  sent :: "'e Event list"
  dest_closed :: bool

definition subscriber_init :: "nat \<Rightarrow> 'e subscriber" where
  "subscriber_init from = \<lparr>pc = AtCheck from, sent = [], dest_closed = False\<rparr>"

text \<open>Which case of a \<open>select\<close> the scheduler takes: the first one or \<open>case <-stop\<close>.\<close>

datatype choice = Proceed | Stop

text \<open>
  \<open>occ\<close> is a pointer read from \<open>h.events[i]\<close> under the lock. Slots are never moved or
  removed, so the pointer is the slot at index \<open>i\<close> of the current log.
\<close>

definition slot :: "'e Hub \<Rightarrow> nat \<Rightarrow> 'e eventOccurrence option" where
  "slot h i = (if i < length (events h) then Some (events h ! i) else None)"

text \<open>
  One step of \<open>Subscribe\<close> on hub \<open>h\<close>, where \<open>stopped\<close> tells whether a receive from
  \<open>stop\<close> is ready. A step that cannot be taken (the chosen case of the \<open>select\<close> is not
  ready, or the call has returned) leaves the subscriber as it is.
\<close>

definition Subscribe_step :: "'e Hub \<Rightarrow> bool \<Rightarrow> choice \<Rightarrow> 'e subscriber \<Rightarrow> 'e subscriber" where
  "Subscribe_step h stopped c s =
     (case pc s of
        AtCheck i \<Rightarrow>
          if length (events h) \<le> i then s\<lparr>pc := Returned, dest_closed := True\<rparr>
          else s\<lparr>pc := AtWait i\<rparr>
      | AtWait i \<Rightarrow>
          (case c of
             Proceed \<Rightarrow>
               (case slot h i of
                  Some occ \<Rightarrow> if occurred occ then s\<lparr>pc := AtSend i\<rparr> else s
                | None \<Rightarrow> s)
           | Stop \<Rightarrow> if stopped then s\<lparr>pc := Returned\<rparr> else s)
      | AtSend i \<Rightarrow>
          (case c of
             Proceed \<Rightarrow>
               (case slot h i of
                  Some occ \<Rightarrow> s\<lparr>pc := AtCheck (i + 1), sent := sent s @ [event occ]\<rparr>
                | None \<Rightarrow> s)
           | Stop \<Rightarrow> if stopped then s\<lparr>pc := Returned\<rparr> else s)
      | Returned \<Rightarrow> s)"

subsection \<open>A hub, a subscriber and a schedule\<close>

record 'e system =
  hub :: "'e Hub"
  sub :: "'e subscriber"
  stop :: bool

datatype 'e action = Emit "'e Event" | CloseHub | Cancel | Sub choice

fun step :: "'e action \<Rightarrow> 'e system \<Rightarrow> panic + 'e system" where
  "step (Emit ev) y =
     (case EmitEvent ev (hub y) of Inl p \<Rightarrow> Inl p | Inr h \<Rightarrow> Inr (y\<lparr>hub := h\<rparr>))"
| "step CloseHub y =
     (case Close (hub y) of Inl p \<Rightarrow> Inl p | Inr h \<Rightarrow> Inr (y\<lparr>hub := h\<rparr>))"
| "step Cancel y = Inr (y\<lparr>stop := True\<rparr>)"
| "step (Sub c) y = Inr (y\<lparr>sub := Subscribe_step (hub y) (stop y) c (sub y)\<rparr>)"

fun run :: "'e action list \<Rightarrow> 'e system \<Rightarrow> panic + 'e system" where
  "run [] y = Inr y"
| "run (a # as) y = (case step a y of Inl p \<Rightarrow> Inl p | Inr y' \<Rightarrow> run as y')"

text \<open>The producer's calls in a schedule, in order.\<close>

fun producer_ops :: "'e action list \<Rightarrow> 'e hub_op list" where
  "producer_ops [] = []"
| "producer_ops (Emit ev # as) = OpEmit ev # producer_ops as"
| "producer_ops (CloseHub # as) = OpClose # producer_ops as"
| "producer_ops (_ # as) = producer_ops as"

definition system_init :: "nat \<Rightarrow> 'e system" where
  "system_init from = \<lparr>hub = NewHub, sub = subscriber_init from, stop = False\<rparr>"

text \<open>
  Where a subscriber from offset 0 can be while the hub holds the events \<open>es\<close> and has
  (\<open>c\<close>) or has not been closed: before an index that the log reaches, having been sent
  the values of the slots before it; or returned, and if it closed \<open>dest\<close>, having been
  sent the value of every slot of a closed hub.
\<close>

definition at_offset_0 :: "'e Event list \<Rightarrow> bool \<Rightarrow> 'e subscriber \<Rightarrow> bool" where
  "at_offset_0 es c s =
     (case pc s of
        AtCheck i \<Rightarrow> \<not> dest_closed s \<and> sent s = take i (es @ [None])
                        \<and> i \<le> length es + (if c then 1 else 0)
      | AtWait i \<Rightarrow> \<not> dest_closed s \<and> sent s = take i es \<and> i \<le> length es
      | AtSend i \<Rightarrow> \<not> dest_closed s \<and> sent s = take i es
                        \<and> i < length es + (if c then 1 else 0)
      | Returned \<Rightarrow> dest_closed s \<longrightarrow> c \<and> sent s = es @ [None])"

section \<open>The check handler (src/api/check/handler.go)\<close>

text \<open>A Go \<open>error\<close> value; \<open>Error\<close> is its text.\<close>

datatype error = errors_New string

fun Error :: "error \<Rightarrow> string" where
  "Error (errors_New msg) = msg"

text \<open>
  An \<open>http.ResponseWriter\<close>: the status line is written by the first \<open>WriteHeader\<close>,
  or as 200 by the first \<open>Write\<close> when no header was written before it.
\<close>

record ResponseWriter =
  status :: "nat option"
  body :: string

definition WriteHeader :: "nat \<Rightarrow> ResponseWriter \<Rightarrow> ResponseWriter" where
  "WriteHeader code w = (if status w = None then w\<lparr>status := Some code\<rparr> else w)"

definition Write :: "string \<Rightarrow> ResponseWriter \<Rightarrow> ResponseWriter" where
  "Write bs w = (let w' = WriteHeader 200 w in w'\<lparr>body := body w' @ bs\<rparr>)"

definition StatusBadRequest :: nat where
  "StatusBadRequest = 400"

definition StatusInternalServerError :: nat where
  "StatusInternalServerError = 500"

text \<open>
  The collaborators of the handler are outside the repository's sources (the JSON codec, the
  resource tracker, the resource, the logger), so they are parameters: \<open>Decode\<close> is
  \<open>json.NewDecoder(r.Body).Decode(&input)\<close> on the request body, \<open>input_Type\<close> reads
  the field \<open>Type\<close> of a \<open>builds.Input\<close>, \<open>Init\<close> is \<open>tracker.Init\<close> on a type name,
  \<open>Check\<close> is \<open>resource.Check\<close>, and \<open>Marshal\<close> is the JSON text of the versions.
  What the handler does to them is recorded as a list of calls, in order.
\<close>

record ('i, 'r, 'v) check_env =
  Decode :: "string \<Rightarrow> error + 'i"
  input_Type :: "'i \<Rightarrow> string"
  Init :: "string \<Rightarrow> error + 'r"
  Check :: "'r \<Rightarrow> 'i \<Rightarrow> error + 'v list"
  Marshal :: "'v list \<Rightarrow> string"

datatype ('i, 'r) check_call =
    LogError string error
  | LogInfo string
  | TrackerInit string
  | ResourceCheck 'r 'i
  | TrackerRelease 'r

text \<open>
  \<open>ServeHTTP\<close> on a writer \<open>w\<close> and a request body. \<open>Encode\<close> of an encoder writes
  the JSON text followed by a newline. The deferred \<open>Release\<close> runs last on both paths that
  follow a successful \<open>Init\<close>.
\<close>

definition ServeHTTP ::
  "('i, 'r, 'v) check_env \<Rightarrow> ResponseWriter \<Rightarrow> string \<Rightarrow> ResponseWriter \<times> ('i, 'r) check_call list" where
  "ServeHTTP env w req =
     (case Decode env req of
        Inl err \<Rightarrow>
          (Write (Error err) (WriteHeader StatusBadRequest w),
           [LogError ''malformed-request'' err])
      | Inr input \<Rightarrow>
          (case Init env (input_Type env input) of
             Inl err \<Rightarrow>
               (Write (Error err) (WriteHeader StatusInternalServerError w),
                [LogInfo ''checking'', TrackerInit (input_Type env input),
                 LogError ''failed-to-init'' err])
           | Inr resource \<Rightarrow>
               (case Check env resource input of
                  Inl err \<Rightarrow>
                    (Write (Error err) (WriteHeader StatusInternalServerError w),
                     [LogInfo ''checking'', TrackerInit (input_Type env input),
                      ResourceCheck resource input, LogError ''failed-to-check'' err,
                      TrackerRelease resource])
                | Inr versions \<Rightarrow>
                    (Write (Marshal env versions @ [CHR 0x0A]) w,
                     [LogInfo ''checking'', TrackerInit (input_Type env input),
                      ResourceCheck resource input, TrackerRelease resource]))))"

definition new_writer :: ResponseWriter where
  "new_writer = \<lparr>status = None, body = []\<rparr>"

definition is_tracker_or_resource_call :: "('i, 'r) check_call \<Rightarrow> bool" where
  "is_tracker_or_resource_call c =
     (case c of LogError _ _ \<Rightarrow> False | LogInfo _ \<Rightarrow> False | _ \<Rightarrow> True)"

text \<open>
  A small environment to run the handler on: the request body stands for the decoded input and
  is also its type, a lone brace does not decode, the tracker knows the types \<open>git\<close> and
  \<open>flaky\<close>, and checking succeeds for \<open>git\<close> only.
\<close>

definition sample_check_env :: "(string, string, string) check_env" where
  "sample_check_env =
     \<lparr>Decode = (\<lambda>req. if req = ''{'' then Inl (errors_New ''unexpected EOF'') else Inr req),
      input_Type = (\<lambda>input. input),
      Init = (\<lambda>t. if t = ''git'' \<or> t = ''flaky'' then Inr t
                   else Inl (errors_New ''unknown resource type'')),
      Check = (\<lambda>r input. if r = ''git'' then Inr [''v1'', ''v2'']
                          else Inl (errors_New ''check failed'')),
      Marshal = (\<lambda>vs. ''['' @ concat vs @ '']'')\<rparr>"

section \<open>The builder (exercised by src/builder/builder_test.go)\<close>

record BuildSource =
  Type :: string
  URI :: string
  source_Path :: string

text \<open>A configured output: the resource type that extracts it and its path in the container.\<close>

record BuildOutput =
  output_Type :: string
  output_Path :: string

record Build =
  build_Image :: string
  Script :: string
  Source :: BuildSource
  Outputs :: "BuildOutput list"

text \<open>
  A process stream: chunks tagged stdout or stderr, then the final message with the exit
  status (a \<open>uint32\<close>).
\<close>

datatype chunk = Stdout string | Stderr string

record ProcessStream =
  chunks :: "chunk list"
  ExitStatus :: "32 word"

text \<open>
  The capabilities the builder is constructed from: the source fetcher, the container
  client's create, copy-in and run, and the \<open>out\<close> operation of a resource type, which
  discovers the versions an output produced in a container. The spec leaves open whether a
  failing extraction overrides the success of the script; \<open>extract_error_overrides\<close> is
  that decision.
\<close>

record builder_env =
  Fetch :: "BuildSource \<Rightarrow> error + string"
  Create :: "string \<Rightarrow> error + string"
  CopyIn :: "string \<Rightarrow> string \<Rightarrow> string \<Rightarrow> error option"
  RunProcess :: "string \<Rightarrow> string \<Rightarrow> error + nat \<times> ProcessStream"
  Out :: "string \<Rightarrow> string \<Rightarrow> string \<Rightarrow> error + string list"
  extract_error_overrides :: bool

datatype builder_call =
    Fetched BuildSource
  | Created string
  | CopiedIn string string string
  | Spawned string string
  | Extracted string string string

record LogStreamer =
  StdoutBuffer :: string
  StderrBuffer :: string
  Flushed :: nat

definition stream_chunk :: "chunk \<Rightarrow> LogStreamer \<Rightarrow> LogStreamer" where
  "stream_chunk c l =
     (case c of
        Stdout d \<Rightarrow> l\<lparr>StdoutBuffer := StdoutBuffer l @ d\<rparr>
      | Stderr d \<Rightarrow> l\<lparr>StderrBuffer := StderrBuffer l @ d\<rparr>)"

definition new_log_streamer :: LogStreamer where
  "new_log_streamer = \<lparr>StdoutBuffer = [], StderrBuffer = [], Flushed = 0\<rparr>"

text \<open>
  Modelled from the spec: the path normalisation of the staging step (builder.go is not among
  the sources). "Both source and destination paths normalized to have trailing separators":
  a path that lacks the separator gets one, a path that ends in one is kept.
\<close>

definition with_trailing_separator :: "string \<Rightarrow> string" where
  "with_trailing_separator p = (if p \<noteq> [] \<and> last p = CHR ''/'' then p else p @ ''/'')"

text \<open>
  Modelled from the spec: the output extraction step (builder.go is not among the sources).
  "For each configured output resource, invoke the resource-type's out operation against the
  container to discover produced versions"; a step failure is surfaced at once, so the first
  failing output ends the extraction with its error. The result is the calls made, in order,
  and the error or the versions discovered.
\<close>

fun ExtractingOutputs ::
  "builder_env \<Rightarrow> string \<Rightarrow> BuildOutput list \<Rightarrow> builder_call list \<times> (error + string list)" where
  "ExtractingOutputs env handle [] = ([], Inr [])"
| "ExtractingOutputs env handle (output # outputs) =
     (case Out env (output_Type output) handle (output_Path output) of
        Inl e \<Rightarrow> ([Extracted (output_Type output) handle (output_Path output)], Inl e)
      | Inr vs \<Rightarrow>
          (case ExtractingOutputs env handle outputs of
             (cs, r) \<Rightarrow>
               (Extracted (output_Type output) handle (output_Path output) # cs,
                case r of Inl e \<Rightarrow> Inl e | Inr ws \<Rightarrow> Inr (vs @ ws))))"

record build_result =
  succeeded :: bool
  err :: "error option"
  calls :: "builder_call list"
  logs :: LogStreamer
  produced :: "string list"

text \<open>
  Modelled from the spec: \<open>Builder.Build\<close> (builder.go is not among the sources, only its
  test is). The steps are those of the spec's orchestration state machine: fetch the source;
  create the container from the image; copy the fetched path in at the build's destination
  path, both normalised; spawn the script; forward each chunk to the log streamer; at the
  exit status flush the streamer, the script having succeeded iff the status is zero; and,
  only after a success, extract the configured outputs. A failing step ends the build with its
  error, surfaced as it is. After a failed extraction the error is returned, and the success
  flag is what the open decision makes it.
\<close>

definition Builder_Build :: "builder_env \<Rightarrow> Build \<Rightarrow> build_result" where
  "Builder_Build env build =
     (case Fetch env (Source build) of
        Inl e \<Rightarrow>
          \<lparr>succeeded = False, err = Some e, calls = [Fetched (Source build)],
           logs = new_log_streamer, produced = []\<rparr>
      | Inr fetchedSource \<Rightarrow>
          (case Create env (build_Image build) of
             Inl e \<Rightarrow>
               \<lparr>succeeded = False, err = Some e,
                calls = [Fetched (Source build), Created (build_Image build)],
                logs = new_log_streamer, produced = []\<rparr>
           | Inr handle \<Rightarrow>
               (let src = with_trailing_separator fetchedSource;
                    dst = with_trailing_separator (source_Path (Source build));
                    staged = [Fetched (Source build), Created (build_Image build),
                              CopiedIn handle src dst]
                in case CopyIn env handle src dst of
                     Some e \<Rightarrow>
                       \<lparr>succeeded = False, err = Some e, calls = staged,
                        logs = new_log_streamer, produced = []\<rparr>
                   | None \<Rightarrow>
                       (case RunProcess env handle (Script build) of
                          Inl e \<Rightarrow>
                            \<lparr>succeeded = False, err = Some e,
                             calls = staged @ [Spawned handle (Script build)],
                             logs = new_log_streamer, produced = []\<rparr>
                        | Inr (pid, stream) \<Rightarrow>
                            (let l = fold stream_chunk (chunks stream) new_log_streamer;
                                 flushed = l\<lparr>Flushed := Flushed l + 1\<rparr>;
                                 ran = staged @ [Spawned handle (Script build)]
                             in if ExitStatus stream \<noteq> 0 then
                                  \<lparr>succeeded = False, err = None, calls = ran,
                                   logs = flushed, produced = []\<rparr>
                                else
                                  (case ExtractingOutputs env handle (Outputs build) of
                                     (cs, Inl e) \<Rightarrow>
                                       \<lparr>succeeded = (\<not> extract_error_overrides env),
                                        err = Some e, calls = ran @ cs,
                                        logs = flushed, produced = []\<rparr>
                                   | (cs, Inr vs) \<Rightarrow>
                                       \<lparr>succeeded = True, err = None, calls = ran @ cs,
                                        logs = flushed, produced = vs\<rparr>))))))"

text \<open>
  The fixtures of builder_test.go: the build of \<open>BeforeEach\<close>, which configures no output,
  and the fakes, which fetch \<open>/path/on/disk\<close>, create the container \<open>some-handle\<close>, copy
  in without an error and run process 42, whose stream is only the exit status. The test has
  no fake for \<open>out\<close>; here it discovers one version.
\<close>

definition test_build :: Build where
  "test_build =
     \<lparr>build_Image = ''some-image-name'', Script = ''./bin/test'',
      Source = \<lparr>Type = ''raw'', URI = ''http://example.com/foo.tar.gz'',
                source_Path = ''some/source/path''\<rparr>,
      Outputs = []\<rparr>"

definition fakes :: "32 word \<Rightarrow> builder_env" where
  "fakes exitStatus =
     \<lparr>Fetch = (\<lambda>_. Inr ''/path/on/disk''),
      Create = (\<lambda>_. Inr ''some-handle''),
      CopyIn = (\<lambda>_ _ _. None),
      RunProcess = (\<lambda>_ _. Inr (42, \<lparr>chunks = [], ExitStatus = exitStatus\<rparr>)),
      Out = (\<lambda>_ _ _. Inr [''some-version'']),
      extract_error_overrides = True\<rparr>"

definition disaster :: error where
  "disaster = errors_New ''oh no!''"

text \<open>The build of the test with one output configured.\<close>

definition test_build_with_output :: Build where
  "test_build_with_output =
     test_build\<lparr>Outputs := [\<lparr>output_Type = ''git'', output_Path = ''some/output/path''\<rparr>]\<rparr>"

section \<open>Properties of the hub\<close>

lemma NewHub_hub_of: "NewHub = hub_of [] False"
  by (simp add: NewHub_def hub_of_def log_of_def)

lemma length_log_of [simp]: "length (log_of es c) = Suc (length es)"
  by (simp add: log_of_def)

lemma log_of_last [simp]: "log_of es c ! length es = \<lparr>event = None, occurred = c\<rparr>"
  by (simp add: log_of_def nth_append)

lemma log_of_nth [simp]: "i < length es \<Longrightarrow> log_of es c ! i = filled (es ! i)"
  by (simp add: log_of_def nth_append)

lemma log_of_update_last:
  "(log_of es c)[length es := x] = map filled es @ [x]"
  by (simp add: log_of_def list_update_append)

lemma EmitEvent_hub_of_open: "EmitEvent ev (hub_of es False) = Inr (hub_of (es @ [ev]) False)"
  by (simp add: EmitEvent_def hub_of_def Let_def log_of_update_last list_update_append)
     (simp add: log_of_def filled_def)

lemma EmitEvent_closed: "closed h \<Longrightarrow> EmitEvent ev h = Inr h"
  by (simp add: EmitEvent_def)

lemma Close_hub_of: "Close (hub_of es c) = Inr (hub_of es True)"
  by (cases c) (simp_all add: Close_def hub_of_def Let_def log_of_update_last, simp add: log_of_def)

lemma closed_hub_of [simp]: "closed (hub_of es c) = c"
  by (simp add: hub_of_def)

lemma events_hub_of [simp]: "events (hub_of es c) = log_of es c"
  by (simp add: hub_of_def)

lemma apply_ops_hub_of:
  "apply_ops ops (hub_of es c) =
     Inr (hub_of (if c then es else es @ recorded ops) (c \<or> OpClose \<in> set ops))"
proof (induction ops arbitrary: es c)
  case Nil
  then show ?case by simp
next
  case (Cons x xs)
  show ?case
  proof (cases x)
    case (OpEmit ev)
    then show ?thesis
      by (cases c) (simp_all add: EmitEvent_hub_of_open EmitEvent_closed Cons.IH)
  next
    case OpClose
    then show ?thesis by (simp add: Close_hub_of Cons.IH)
  qed
qed

lemma apply_ops_NewHub:
  "apply_ops ops NewHub = Inr (hub_of (recorded ops) (OpClose \<in> set ops))"
  by (simp add: NewHub_hub_of apply_ops_hub_of)

lemma recorded_emits [simp]: "recorded (map OpEmit es) = es"
  by (induction es) auto

lemma recorded_append_prefix: "\<exists>zs. recorded (xs @ ys) = recorded xs @ zs"
proof (induction xs)
  case Nil then show ?case by simp
next
  case (Cons x xs) then show ?case by (cases x) auto
qed

lemma recorded_append_closed: "OpClose \<in> set xs \<Longrightarrow> recorded (xs @ ys) = recorded xs"
proof (induction xs)
  case Nil then show ?case by simp
next
  case (Cons x xs) then show ?case by (cases x) auto
qed

lemma signalled_slot_kept:
  assumes "i < length (log_of es c)" "occurred (log_of es c ! i)"
    and "c \<Longrightarrow> es' = es \<and> c'" and "\<exists>zs. es' = es @ zs"
  shows "i < length (log_of es' c') \<and> log_of es' c' ! i = log_of es c ! i"
proof -
  from assms(4) obtain zs where zs: "es' = es @ zs" by blast
  show ?thesis
  proof (cases "i < length es")
    case True
    then show ?thesis by (simp add: zs nth_append)
  next
    case False
    with assms(1) have i: "i = length es" by simp
    with assms(2) have c by simp
    with assms(3) have "es' = es" c' by simp_all
    then show ?thesis using i \<open>c\<close> by simp
  qed
qed

text \<open>
  Claim C3. After \<open>NewHub\<close> and any sequence of \<open>EmitEvent\<close> calls made before
  \<open>Close\<close>, the log is one signalled slot per emitted event, each holding its event, in
  order, followed by exactly one unfilled slot, the last. And whatever calls of
  \<open>EmitEvent\<close> and \<open>Close\<close> were made, any later such calls leave every signalled slot
  in its place with its contents: none is mutated, removed or reordered.
\<close>

theorem hub_log_invariant:
  "apply_ops (map OpEmit es) NewHub =
     Inr \<lparr>events = map filled es @ [\<lparr>event = None, occurred = False\<rparr>], closed = False\<rparr>
   \<and> (\<exists>h h'. apply_ops ops NewHub = Inr h \<and> apply_ops (ops @ later) NewHub = Inr h'
        \<and> (\<forall>i < length (events h). occurred (events h ! i) \<longrightarrow>
              i < length (events h') \<and> events h' ! i = events h ! i))"
proof
  have "OpClose \<notin> set (map OpEmit es)" by auto
  then show "apply_ops (map OpEmit es) NewHub =
     Inr \<lparr>events = map filled es @ [\<lparr>event = None, occurred = False\<rparr>], closed = False\<rparr>"
    by (simp add: apply_ops_NewHub hub_of_def log_of_def)
next
  let ?h = "hub_of (recorded ops) (OpClose \<in> set ops)"
  let ?h' = "hub_of (recorded (ops @ later)) (OpClose \<in> set (ops @ later))"
  have "\<forall>i < length (events ?h). occurred (events ?h ! i) \<longrightarrow>
              i < length (events ?h') \<and> events ?h' ! i = events ?h ! i"
    using signalled_slot_kept [of _ "recorded ops" "OpClose \<in> set ops" "recorded (ops @ later)" "OpClose \<in> set (ops @ later)"]
      recorded_append_prefix [of ops later] recorded_append_closed [of ops later]
    by auto
  then show "\<exists>h h'. apply_ops ops NewHub = Inr h \<and> apply_ops (ops @ later) NewHub = Inr h'
        \<and> (\<forall>i < length (events h). occurred (events h ! i) \<longrightarrow>
              i < length (events h') \<and> events h' ! i = events h ! i)"
    using apply_ops_NewHub [of ops] apply_ops_NewHub [of "ops @ later"] by blast
qed

theorem hub_log_invariant_witness:
  "\<exists>h h'. apply_ops [OpEmit (Some (1::nat))] NewHub = Inr h
     \<and> apply_ops ([OpEmit (Some 1)] @ [OpEmit (Some 2), OpClose]) NewHub = Inr h'
     \<and> 0 < length (events h) \<and> occurred (events h ! 0)
     \<and> 0 < length (events h') \<and> events h' ! 0 = events h ! 0"
proof -
  from hub_log_invariant [of "[]" "[OpEmit (Some (1::nat))]" "[OpEmit (Some 2), OpClose]"]
  obtain h h' where a: "apply_ops [OpEmit (Some (1::nat))] NewHub = Inr h"
    and b: "apply_ops ([OpEmit (Some 1)] @ [OpEmit (Some 2), OpClose]) NewHub = Inr h'"
    and c: "\<forall>i < length (events h). occurred (events h ! i) \<longrightarrow>
              i < length (events h') \<and> events h' ! i = events h ! i"
    by blast
  from a have h: "h = \<lparr>events = [\<lparr>event = Some 1, occurred = True\<rparr>, \<lparr>event = None, occurred = False\<rparr>], closed = False\<rparr>"
    by (simp add: NewHub_def EmitEvent_def Let_def)
  then have "0 < length (events h)" "occurred (events h ! 0)" by simp_all
  with a b c show ?thesis by blast
qed

lemma run_append:
  "run (xs @ ys) y = (case run xs y of Inl p \<Rightarrow> Inl p | Inr y' \<Rightarrow> run ys y')"
  by (induction xs arbitrary: y) (auto split: sum.splits)

lemma Close_closed: "closed h \<Longrightarrow> Close h = Inr h"
  by (simp add: Close_def)

lemma step_closed: "closed (hub y) \<Longrightarrow> \<exists>y'. step a y = Inr y' \<and> closed (hub y')"
  by (cases a) (simp_all add: EmitEvent_closed Close_closed)

lemma run_closed: "closed (hub y) \<Longrightarrow> \<exists>y'. run sched y = Inr y' \<and> closed (hub y')"
proof (induction sched arbitrary: y)
  case Nil
  then show ?case by simp
next
  case (Cons a sched)
  from step_closed [OF Cons.prems, of a] obtain y1 where "step a y = Inr y1" "closed (hub y1)"
    by blast
  with Cons.IH [of y1] show ?case by simp
qed

lemma producer_step_closed:
  "closed (hub y) \<Longrightarrow> a = Emit ev \<or> a = CloseHub \<Longrightarrow> step a y = Inr y"
  by (auto simp: EmitEvent_closed Close_closed)

lemma run_producer_inert:
  assumes "closed (hub y)" and "a = Emit ev \<or> a = CloseHub"
  shows "run (pre @ a # post) y = run (pre @ post) y"
proof -
  from run_closed [OF assms(1), of pre] obtain y1 where y1: "run pre y = Inr y1" "closed (hub y1)"
    by blast
  from producer_step_closed [OF y1(2) assms(2)] have "step a y1 = Inr y1" .
  with y1 show ?thesis by (simp add: run_append)
qed

text \<open>
  Claim C5. On a hub on which \<open>Close\<close> has been called, \<open>EmitEvent\<close> is a silent
  no-op: it returns without a panic and leaves the hub as it was (the log keeps its length and
  every slot its contents, the recorded events followed by the signalled end marker). And a
  subscriber in any state, under any schedule, ends up exactly where it would have if the
  call had not been made: the event reaches no subscriber's stream.
\<close>

theorem emit_after_close_inert:
  assumes "apply_ops ops NewHub = Inr h" and "OpClose \<in> set ops"
  shows "EmitEvent ev h = Inr h
       \<and> events h = map filled (recorded ops) @ [\<lparr>event = None, occurred = True\<rparr>]
       \<and> run (pre @ Emit ev # post) \<lparr>hub = h, sub = s, stop = b\<rparr>
           = run (pre @ post) \<lparr>hub = h, sub = s, stop = b\<rparr>"
proof -
  from assms have h: "h = hub_of (recorded ops) True"
    by (simp add: apply_ops_NewHub)
  then have c: "closed (hub \<lparr>hub = h, sub = s, stop = b\<rparr>)" by simp
  have "EmitEvent ev h = Inr h" using h by (simp add: EmitEvent_closed)
  moreover have "events h = map filled (recorded ops) @ [\<lparr>event = None, occurred = True\<rparr>]"
    using h by (simp add: log_of_def)
  moreover have "run (pre @ Emit ev # post) \<lparr>hub = h, sub = s, stop = b\<rparr>
           = run (pre @ post) \<lparr>hub = h, sub = s, stop = b\<rparr>"
    by (rule run_producer_inert [OF c]) simp
  ultimately show ?thesis by blast
qed

theorem emit_after_close_inert_witness:
  "apply_ops [OpEmit (Some (1::nat)), OpClose] NewHub
     = Inr \<lparr>events = [\<lparr>event = Some 1, occurred = True\<rparr>, \<lparr>event = None, occurred = True\<rparr>],
            closed = True\<rparr>
   \<and> OpClose \<in> set [OpEmit (Some (1::nat)), OpClose]
   \<and> EmitEvent (Some 2)
        \<lparr>events = [\<lparr>event = Some (1::nat), occurred = True\<rparr>, \<lparr>event = None, occurred = True\<rparr>],
         closed = True\<rparr>
     = Inr \<lparr>events = [\<lparr>event = Some 1, occurred = True\<rparr>, \<lparr>event = None, occurred = True\<rparr>],
            closed = True\<rparr>"
proof -
  have a: "apply_ops [OpEmit (Some (1::nat)), OpClose] NewHub
     = Inr \<lparr>events = [\<lparr>event = Some 1, occurred = True\<rparr>, \<lparr>event = None, occurred = True\<rparr>],
            closed = True\<rparr>"
    by (simp add: NewHub_def EmitEvent_def Close_def Let_def)
  have b: "OpClose \<in> set [OpEmit (Some (1::nat)), OpClose]" by simp
  from emit_after_close_inert [OF a b, of "Some 2" "[]" "[]"] a b show ?thesis by blast
qed

text \<open>
  Claim C7. \<open>Close\<close> is idempotent. On every hub that calls of \<open>EmitEvent\<close> and
  \<open>Close\<close> can produce, \<open>Close\<close> does not panic, and a second \<open>Close\<close> returns the
  hub unchanged, without a panic and without signalling a slot again. Whatever happens between
  and after the two calls, a subscriber in any state ends up exactly where it would have with
  the one call only.
\<close>

theorem Close_idempotent:
  assumes "apply_ops ops NewHub = Inr h"
  shows "\<exists>h1. Close h = Inr h1 \<and> Close h1 = Inr h1
           \<and> run (CloseHub # pre @ CloseHub # post) \<lparr>hub = h, sub = s, stop = b\<rparr>
               = run (CloseHub # pre @ post) \<lparr>hub = h, sub = s, stop = b\<rparr>"
proof -
  from assms have h: "h = hub_of (recorded ops) (OpClose \<in> set ops)"
    by (simp add: apply_ops_NewHub)
  let ?h1 = "hub_of (recorded ops) True"
  have 1: "Close h = Inr ?h1" using h by (simp add: Close_hub_of)
  have 2: "Close ?h1 = Inr ?h1" by (simp add: Close_hub_of)
  have c: "closed (hub \<lparr>hub = ?h1, sub = s, stop = b\<rparr>)" by simp
  have "run (pre @ CloseHub # post) \<lparr>hub = ?h1, sub = s, stop = b\<rparr>
          = run (pre @ post) \<lparr>hub = ?h1, sub = s, stop = b\<rparr>"
    by (rule run_producer_inert [OF c]) simp
  with 1 have "run (CloseHub # pre @ CloseHub # post) \<lparr>hub = h, sub = s, stop = b\<rparr>
               = run (CloseHub # pre @ post) \<lparr>hub = h, sub = s, stop = b\<rparr>"
    by simp
  with 1 2 show ?thesis by blast
qed

theorem Close_idempotent_witness:
  "apply_ops [OpEmit (Some (1::nat))] NewHub
     = Inr \<lparr>events = [\<lparr>event = Some 1, occurred = True\<rparr>, \<lparr>event = None, occurred = False\<rparr>],
            closed = False\<rparr>
   \<and> (\<exists>h1. Close \<lparr>events = [\<lparr>event = Some (1::nat), occurred = True\<rparr>,
                              \<lparr>event = None, occurred = False\<rparr>], closed = False\<rparr> = Inr h1
          \<and> Close h1 = Inr h1)"
proof -
  have a: "apply_ops [OpEmit (Some (1::nat))] NewHub
     = Inr \<lparr>events = [\<lparr>event = Some 1, occurred = True\<rparr>, \<lparr>event = None, occurred = False\<rparr>],
            closed = False\<rparr>"
    by (simp add: NewHub_def EmitEvent_def Let_def)
  from Close_idempotent [OF a, of "[]" "[]"] a show ?thesis by blast
qed

text \<open>
  Claim C6. \<open>Subscribe\<close> from an offset at or beyond the length of the log (so from any
  offset greater than it, and from any offset greater than the number of events recorded)
  ends the stream at its first step, which is never blocked: nothing is sent,
  \<open>dest\<close> is closed and the call returns, without an error, whichever \<open>select\<close> case
  the scheduler favours and whether or not \<open>stop\<close> has fired. The hub is not changed.
\<close>

theorem Subscribe_beyond_log:
  assumes "length (events h) \<le> from"
  shows "step (Sub c) \<lparr>hub = h, sub = subscriber_init from, stop = b\<rparr>
           = Inr \<lparr>hub = h, sub = \<lparr>pc = Returned, sent = [], dest_closed = True\<rparr>, stop = b\<rparr>"
  using assms by (simp add: Subscribe_step_def subscriber_init_def)

theorem Subscribe_beyond_log_witness:
  "length (events (NewHub :: nat Hub)) \<le> 2
   \<and> step (Sub Proceed) \<lparr>hub = (NewHub :: nat Hub), sub = subscriber_init 2, stop = False\<rparr>
       = Inr \<lparr>hub = NewHub, sub = \<lparr>pc = Returned, sent = [], dest_closed = True\<rparr>, stop = False\<rparr>"
proof -
  have a: "length (events (NewHub :: nat Hub)) \<le> 2" by (simp add: NewHub_def)
  from Subscribe_beyond_log [OF a, of Proceed False] a show ?thesis by blast
qed

lemma run_subs:
  "run (replicate n (Sub c)) y
     = Inr (y\<lparr>sub := (Subscribe_step (hub y) (stop y) c ^^ n) (sub y)\<rparr>)"
proof (induction n arbitrary: y)
  case 0
  then show ?case by simp
next
  case (Suc n)
  show ?case by (simp add: Suc.IH funpow_swap1)
qed

lemma run_emits:
  "hub y = hub_of es0 False \<Longrightarrow> run (map Emit es) y = Inr (y\<lparr>hub := hub_of (es0 @ es) False\<rparr>)"
proof (induction es arbitrary: y es0)
  case Nil
  then show ?case by simp
next
  case (Cons e es)
  have "step (Emit e) y = Inr (y\<lparr>hub := hub_of (es0 @ [e]) False\<rparr>)"
    using Cons.prems by (simp add: EmitEvent_hub_of_open)
  moreover have "run (map Emit es) (y\<lparr>hub := hub_of (es0 @ [e]) False\<rparr>)
      = Inr (y\<lparr>hub := hub_of ((es0 @ [e]) @ es) False\<rparr>)"
    using Cons.IH [of "y\<lparr>hub := hub_of (es0 @ [e]) False\<rparr>" "es0 @ [e]"] by simp
  ultimately show ?case by simp
qed

lemma one_iteration:
  assumes "i < length (events h)" and "occurred (events h ! i)"
  shows "(Subscribe_step h b Proceed ^^ 3) \<lparr>pc = AtCheck i, sent = d, dest_closed = False\<rparr>
           = \<lparr>pc = AtCheck (Suc i), sent = d @ [event (events h ! i)], dest_closed = False\<rparr>"
  using assms by (simp add: Subscribe_step_def slot_def numeral_3_eq_3)

lemma drain:
  assumes "\<forall>occ \<in> set (events h). occurred occ"
  shows "i \<le> length (events h) \<Longrightarrow> n = length (events h) - i \<Longrightarrow>
     (Subscribe_step h b Proceed ^^ (3 * n + 1)) \<lparr>pc = AtCheck i, sent = d, dest_closed = False\<rparr>
       = \<lparr>pc = Returned, sent = d @ map event (drop i (events h)), dest_closed = True\<rparr>"
proof (induction n arbitrary: i d)
  case 0
  then show ?case by (simp add: Subscribe_step_def)
next
  case (Suc n)
  then have i: "i < length (events h)" by simp
  with assms have occ: "occurred (events h ! i)" by simp
  have "3 * Suc n + 1 = (3 * n + 1) + 3" by simp
  then have "(Subscribe_step h b Proceed ^^ (3 * Suc n + 1)) \<lparr>pc = AtCheck i, sent = d, dest_closed = False\<rparr>
      = (Subscribe_step h b Proceed ^^ (3 * n + 1))
          ((Subscribe_step h b Proceed ^^ 3) \<lparr>pc = AtCheck i, sent = d, dest_closed = False\<rparr>)"
    by (simp only: funpow_add o_apply)
  also have "\<dots> = (Subscribe_step h b Proceed ^^ (3 * n + 1))
          \<lparr>pc = AtCheck (Suc i), sent = d @ [event (events h ! i)], dest_closed = False\<rparr>"
    by (simp only: one_iteration [OF i occ])
  also have "\<dots> = \<lparr>pc = Returned,
        sent = (d @ [event (events h ! i)]) @ map event (drop (Suc i) (events h)),
        dest_closed = True\<rparr>"
    using Suc.prems i by (intro Suc.IH) simp_all
  also have "(d @ [event (events h ! i)]) @ map event (drop (Suc i) (events h))
      = d @ map event (drop i (events h))"
    using i by (simp add: Cons_nth_drop_Suc [symmetric])
  finally show ?case .
qed

lemma closed_log_signalled: "\<forall>occ \<in> set (events (hub_of es True)). occurred occ"
  by (auto simp: log_of_def filled_def)

lemma map_event_log_of: "map event (log_of es c) = es @ [None]"
  by (simp add: log_of_def filled_def comp_def)

lemma replay_closed:
  assumes "k \<le> length es"
  shows "run (map Emit es @ CloseHub # replicate (3 * (length es - k) + 4) (Sub Proceed))
           (system_init k)
         = Inr \<lparr>hub = hub_of es True,
                sub = \<lparr>pc = Returned, sent = drop k es @ [None], dest_closed = True\<rparr>,
                stop = False\<rparr>"
proof -
  have 1: "run (map Emit es) (system_init k) = Inr ((system_init k)\<lparr>hub := hub_of es False\<rparr>)"
    using run_emits [of "system_init k" "[]" es] by (simp add: system_init_def NewHub_hub_of)
  have n: "3 * (length es - k) + 4 = 3 * (length (events (hub_of es True)) - k) + 1"
    using assms by simp
  have 3: "(Subscribe_step (hub_of es True) False Proceed ^^ (3 * (length es - k) + 4))
              \<lparr>pc = AtCheck k, sent = [], dest_closed = False\<rparr>
           = \<lparr>pc = Returned, sent = [] @ map event (drop k (events (hub_of es True))),
              dest_closed = True\<rparr>"
    unfolding n using assms by (intro drain closed_log_signalled) simp_all
  have 4: "map event (drop k (events (hub_of es True))) = drop k es @ [None]"
    using assms by (simp add: drop_map [symmetric] map_event_log_of)
  let ?y = "\<lparr>hub = hub_of es True, sub = subscriber_init k, stop = False\<rparr>"
  have "run (map Emit es @ CloseHub # replicate (3 * (length es - k) + 4) (Sub Proceed))
           (system_init k)
        = run (replicate (3 * (length es - k) + 4) (Sub Proceed)) ?y"
    by (simp add: run_append 1 Close_hub_of) (simp add: system_init_def)
  also have "\<dots> = Inr (?y\<lparr>sub := (Subscribe_step (hub_of es True) False Proceed
                                     ^^ (3 * (length es - k) + 4)) (subscriber_init k)\<rparr>)"
    by (simp only: run_subs system.simps)
  also have "\<dots> = Inr \<lparr>hub = hub_of es True,
                sub = \<lparr>pc = Returned, sent = drop k es @ [None], dest_closed = True\<rparr>,
                stop = False\<rparr>"
    by (simp only: subscriber_init_def 3 4) simp
  finally show ?thesis .
qed


lemma blocked:
  assumes "n < length (events h)" and "\<not> occurred (events h ! n)"
  shows "(Subscribe_step h b Proceed ^^ m) \<lparr>pc = AtWait n, sent = d, dest_closed = False\<rparr>
           = \<lparr>pc = AtWait n, sent = d, dest_closed = False\<rparr>"
proof (induction m)
  case 0
  then show ?case by simp
next
  case (Suc m)
  then show ?case using assms by (simp add: Subscribe_step_def slot_def)
qed

lemma catch_up:
  assumes "n < length (events h)" and "\<not> occurred (events h ! n)"
    and "\<forall>j < n. occurred (events h ! j)"
  shows "i \<le> n \<Longrightarrow> r = n - i \<Longrightarrow>
     (Subscribe_step h b Proceed ^^ (3 * r + 1 + m)) \<lparr>pc = AtCheck i, sent = d, dest_closed = False\<rparr>
       = \<lparr>pc = AtWait n, sent = d @ map event (take r (drop i (events h))), dest_closed = False\<rparr>"
proof (induction r arbitrary: i d)
  case 0
  then have i: "i = n" by simp
  have "(Subscribe_step h b Proceed ^^ (1 + m)) \<lparr>pc = AtCheck i, sent = d, dest_closed = False\<rparr>
      = (Subscribe_step h b Proceed ^^ m)
          (Subscribe_step h b Proceed \<lparr>pc = AtCheck i, sent = d, dest_closed = False\<rparr>)"
    by (simp add: funpow_swap1)
  also have "\<dots> = (Subscribe_step h b Proceed ^^ m) \<lparr>pc = AtWait n, sent = d, dest_closed = False\<rparr>"
    using assms(1) i by (simp add: Subscribe_step_def)
  also have "\<dots> = \<lparr>pc = AtWait n, sent = d, dest_closed = False\<rparr>"
    by (rule blocked [OF assms(1,2)])
  finally show ?case by simp
next
  case (Suc r)
  then have i: "i < n" by simp
  with assms have il: "i < length (events h)" and occ: "occurred (events h ! i)" by simp_all
  have "3 * Suc r + 1 + m = (3 * r + 1 + m) + 3" by simp
  then have "(Subscribe_step h b Proceed ^^ (3 * Suc r + 1 + m))
               \<lparr>pc = AtCheck i, sent = d, dest_closed = False\<rparr>
      = (Subscribe_step h b Proceed ^^ (3 * r + 1 + m))
          ((Subscribe_step h b Proceed ^^ 3) \<lparr>pc = AtCheck i, sent = d, dest_closed = False\<rparr>)"
    by (simp only: funpow_add o_apply)
  also have "\<dots> = (Subscribe_step h b Proceed ^^ (3 * r + 1 + m))
          \<lparr>pc = AtCheck (Suc i), sent = d @ [event (events h ! i)], dest_closed = False\<rparr>"
    by (simp only: one_iteration [OF il occ])
  also have "\<dots> = \<lparr>pc = AtWait n,
        sent = (d @ [event (events h ! i)]) @ map event (take r (drop (Suc i) (events h))),
        dest_closed = False\<rparr>"
    using Suc.prems i by (intro Suc.IH) simp_all
  also have "(d @ [event (events h ! i)]) @ map event (take r (drop (Suc i) (events h)))
      = d @ map event (take (Suc r) (drop i (events h)))"
    using il by (simp add: Cons_nth_drop_Suc [symmetric])
  finally show ?case .
qed

lemma replay_open:
  assumes "k \<le> length es"
  shows "run (map Emit es @ replicate (3 * (length es - k) + 1 + m) (Sub Proceed)) (system_init k)
         = Inr \<lparr>hub = hub_of es False,
                sub = \<lparr>pc = AtWait (length es), sent = drop k es, dest_closed = False\<rparr>,
                stop = False\<rparr>"
proof -
  have 1: "run (map Emit es) (system_init k) = Inr ((system_init k)\<lparr>hub := hub_of es False\<rparr>)"
    using run_emits [of "system_init k" "[]" es] by (simp add: system_init_def NewHub_hub_of)
  have sig: "\<forall>j < length es. occurred (events (hub_of es False) ! j)"
    by (simp add: filled_def)
  have 3: "(Subscribe_step (hub_of es False) False Proceed ^^ (3 * (length es - k) + 1 + m))
              \<lparr>pc = AtCheck k, sent = [], dest_closed = False\<rparr>
           = \<lparr>pc = AtWait (length es),
              sent = [] @ map event (take (length es - k) (drop k (events (hub_of es False)))),
              dest_closed = False\<rparr>"
    using assms sig by (intro catch_up) simp_all
  have "take (length es - k) (drop k (log_of es False)) = drop k (map filled es)"
    using assms by (simp add: log_of_def)
  then have 4: "map event (take (length es - k) (drop k (events (hub_of es False)))) = drop k es"
    by (simp add: drop_map filled_def comp_def)
  let ?y = "\<lparr>hub = hub_of es False, sub = subscriber_init k, stop = False\<rparr>"
  have "run (map Emit es @ replicate (3 * (length es - k) + 1 + m) (Sub Proceed)) (system_init k)
        = run (replicate (3 * (length es - k) + 1 + m) (Sub Proceed)) ?y"
    by (simp add: run_append 1) (simp add: system_init_def)
  also have "\<dots> = Inr (?y\<lparr>sub := (Subscribe_step (hub_of es False) False Proceed
                                     ^^ (3 * (length es - k) + 1 + m)) (subscriber_init k)\<rparr>)"
    by (simp only: run_subs system.simps)
  also have "\<dots> = Inr \<lparr>hub = hub_of es False,
                sub = \<lparr>pc = AtWait (length es), sent = drop k es, dest_closed = False\<rparr>,
                stop = False\<rparr>"
    by (simp only: subscriber_init_def 3 4) simp
  finally show ?thesis .
qed

text \<open>
  Claim C4 says that a subscriber from offset \<open>k \<le> N\<close> receives exactly the events
  \<open>k\<close> to \<open>N - 1\<close>, the same values an offset-0 subscriber received at those positions.
  On a closed hub the values sent from offset \<open>k\<close> are indeed those the offset-0
  subscriber was sent from position \<open>k\<close> on, but they are the events \<open>k\<close> to
  \<open>N - 1\<close> followed by the nil event of the close-marker slot.
\<close>

theorem replay_sends_close_marker:
  assumes "k \<le> length es"
  shows "\<exists>y0 yk.
      run (map Emit es @ CloseHub # replicate (3 * length es + 4) (Sub Proceed)) (system_init 0)
        = Inr y0
    \<and> run (map Emit es @ CloseHub # replicate (3 * (length es - k) + 4) (Sub Proceed))
        (system_init k) = Inr yk
    \<and> pc (sub yk) = Returned \<and> dest_closed (sub yk)
    \<and> sent (sub yk) = drop k es @ [None]
    \<and> sent (sub yk) = drop k (sent (sub y0))"
  using replay_closed [of 0 es] replay_closed [OF assms] assms by simp

theorem replay_sends_close_marker_witness:
  "(3::nat) \<le> length [Some (1::nat), Some 2, Some 3]
   \<and> run (map Emit [Some (1::nat), Some 2, Some 3] @ CloseHub # replicate 4 (Sub Proceed))
        (system_init 3)
     = Inr \<lparr>hub = hub_of [Some 1, Some 2, Some 3] True,
            sub = \<lparr>pc = Returned, sent = [None], dest_closed = True\<rparr>,
            stop = False\<rparr>"
proof -
  have a: "(3::nat) \<le> length [Some (1::nat), Some 2, Some 3]" by simp
  from replay_sends_close_marker [OF a]
  obtain yk where
    r: "run (map Emit [Some (1::nat), Some 2, Some 3] @ CloseHub
              # replicate (3 * (length [Some (1::nat), Some 2, Some 3] - 3) + 4) (Sub Proceed))
          (system_init 3) = Inr yk"
    and s: "sent (sub yk) = drop 3 [Some (1::nat), Some 2, Some 3] @ [None]"
    by blast
  have "run (map Emit [Some (1::nat), Some 2, Some 3] @ CloseHub # replicate 4 (Sub Proceed))
        (system_init 3)
     = Inr \<lparr>hub = hub_of [Some 1, Some 2, Some 3] True,
            sub = \<lparr>pc = Returned, sent = [None], dest_closed = True\<rparr>,
            stop = False\<rparr>"
    by (simp add: system_init_def subscriber_init_def NewHub_def EmitEvent_def Close_def
          Subscribe_step_def slot_def hub_of_def log_of_def filled_def Let_def
          numeral_eq_Suc)
  with a r s show ?thesis by blast
qed

subsection \<open>A subscriber from offset 0 under every schedule\<close>

lemma producer_ops_append: "producer_ops (xs @ ys) = producer_ops xs @ producer_ops ys"
  by (induction xs rule: producer_ops.induct) auto

lemma recorded_snoc_emit:
  "recorded (ops @ [OpEmit ev]) = (if OpClose \<in> set ops then recorded ops else recorded ops @ [ev])"
proof (induction ops)
  case Nil then show ?case by simp
next
  case (Cons x xs) then show ?case by (cases x) auto
qed

lemma recorded_snoc_close: "recorded (ops @ [OpClose]) = recorded ops"
proof (induction ops)
  case Nil then show ?case by simp
next
  case (Cons x xs) then show ?case by (cases x) auto
qed

lemma slot_hub_of:
  "slot (hub_of es c) i =
     (if i < length es then Some (filled (es ! i))
      else if i = length es then Some \<lparr>event = None, occurred = c\<rparr> else None)"
  by (auto simp: slot_def)

lemma at_offset_0_init: "at_offset_0 [] False (subscriber_init 0)"
  by (simp add: at_offset_0_def subscriber_init_def)

lemma at_offset_0_step:
  assumes "at_offset_0 es c s"
  shows "at_offset_0 es c (Subscribe_step (hub_of es c) b ch s)"
proof (cases "pc s")
  case (AtCheck i)
  with assms show ?thesis
    by (auto simp: at_offset_0_def Subscribe_step_def split: if_splits)
next
  case (AtWait i)
  with assms show ?thesis
    by (cases ch)
       (auto simp: at_offset_0_def Subscribe_step_def slot_hub_of filled_def split: if_splits)
next
  case (AtSend i)
  with assms show ?thesis
    by (cases ch)
       (auto simp: at_offset_0_def Subscribe_step_def slot_hub_of filled_def
             take_Suc_conv_app_nth split: if_splits)
next
  case Returned
  with assms show ?thesis by (simp add: at_offset_0_def Subscribe_step_def)
qed

lemma at_offset_0_emit:
  assumes "at_offset_0 es False s"
  shows "at_offset_0 (es @ [ev]) False s"
  using assms by (cases "pc s") (simp_all add: at_offset_0_def)

lemma at_offset_0_close:
  assumes "at_offset_0 es c s"
  shows "at_offset_0 es True s"
  using assms by (cases "pc s") (auto simp: at_offset_0_def split: if_splits)

lemma run_snoc:
  "run (sched @ [a]) y = (case run sched y of Inl p \<Rightarrow> Inl p | Inr y' \<Rightarrow> step a y')"
  by (simp add: run_append split: sum.splits)

lemma run_from_offset_0:
  "\<exists>y. run sched (system_init 0) = Inr y
     \<and> hub y = hub_of (recorded (producer_ops sched)) (OpClose \<in> set (producer_ops sched))
     \<and> at_offset_0 (recorded (producer_ops sched)) (OpClose \<in> set (producer_ops sched)) (sub y)"
proof (induction sched rule: rev_induct)
  case Nil
  show ?case
    by (simp add: system_init_def NewHub_hub_of at_offset_0_init)
next
  case (snoc a sched)
  let ?es = "recorded (producer_ops sched)"
  let ?c = "OpClose \<in> set (producer_ops sched)"
  from snoc obtain y where y: "run sched (system_init 0) = Inr y"
    and h: "hub y = hub_of ?es ?c" and inv: "at_offset_0 ?es ?c (sub y)"
    by blast
  show ?case
  proof (cases a)
    case (Emit ev)
    show ?thesis
    proof (cases ?c)
      case True
      then have "step a y = Inr y" using h Emit by (simp add: EmitEvent_closed)
      with y h inv True show ?thesis
        by (simp add: run_snoc producer_ops_append Emit recorded_snoc_emit)
    next
      case False
      then have "step a y = Inr (y\<lparr>hub := hub_of (?es @ [ev]) False\<rparr>)"
        using h Emit by (simp add: EmitEvent_hub_of_open)
      moreover have "at_offset_0 (?es @ [ev]) False (sub y)"
        using inv False by (simp add: at_offset_0_emit)
      ultimately show ?thesis using y False
        by (simp add: run_snoc producer_ops_append Emit recorded_snoc_emit)
    qed
  next
    case CloseHub
    have "step a y = Inr (y\<lparr>hub := hub_of ?es True\<rparr>)"
      using h CloseHub by (simp add: Close_hub_of)
    moreover have "at_offset_0 ?es True (sub y)"
      using inv by (rule at_offset_0_close)
    ultimately show ?thesis using y
      by (simp add: run_snoc producer_ops_append CloseHub recorded_snoc_close)
  next
    case Cancel
    with y h inv show ?thesis
      by (simp add: run_snoc producer_ops_append)
  next
    case (Sub ch)
    let ?s' = "Subscribe_step (hub_of ?es ?c) (stop y) ch (sub y)"
    have "step a y = Inr (y\<lparr>sub := ?s'\<rparr>)" using h Sub by simp
    moreover have "at_offset_0 ?es ?c ?s'" using inv by (rule at_offset_0_step)
    ultimately show ?thesis using y h
      by (simp add: run_snoc producer_ops_append Sub)
  qed
qed


text \<open>
  Claim C1 says that a subscriber from offset 0, on a hub that records N events and is then
  closed, receives exactly those N events and then sees \<open>dest\<close> closed, nothing being
  delivered for the close-marker slot. What \<open>Subscribe\<close> does: the marker slot is
  signalled, so the first \<open>select\<close> passes, and the second sends the slot's event, the
  nil interface, on \<open>dest\<close>; only the next bounds check closes \<open>dest\<close>. Under every
  schedule of producer calls, subscriber steps and cancellation, a subscriber from offset 0
  that has closed \<open>dest\<close> has been sent the recorded events followed by a nil event, the
  hub having been closed. And for every list of events there is such a run: the subscriber
  that runs after \<open>Close\<close> returns having been sent the N events and a nil event.
\<close>

theorem Subscribe_sends_close_marker:
  "(\<exists>y. run sched (system_init 0) = Inr y
      \<and> (dest_closed (sub y) \<longrightarrow>
            OpClose \<in> set (producer_ops sched)
            \<and> sent (sub y) = recorded (producer_ops sched) @ [None]))
   \<and> run (map Emit es @ CloseHub # replicate (3 * length es + 4) (Sub Proceed)) (system_init 0)
     = Inr \<lparr>hub = hub_of es True,
            sub = \<lparr>pc = Returned, sent = es @ [None], dest_closed = True\<rparr>,
            stop = False\<rparr>"
proof
  from run_from_offset_0 [of sched] obtain y where y: "run sched (system_init 0) = Inr y"
    and inv: "at_offset_0 (recorded (producer_ops sched)) (OpClose \<in> set (producer_ops sched))
                (sub y)"
    by blast
  have "dest_closed (sub y) \<longrightarrow>
            OpClose \<in> set (producer_ops sched)
            \<and> sent (sub y) = recorded (producer_ops sched) @ [None]"
    using inv by (cases "pc (sub y)") (simp_all add: at_offset_0_def)
  with y show "\<exists>y. run sched (system_init 0) = Inr y
      \<and> (dest_closed (sub y) \<longrightarrow>
            OpClose \<in> set (producer_ops sched)
            \<and> sent (sub y) = recorded (producer_ops sched) @ [None])"
    by blast
next
  show "run (map Emit es @ CloseHub # replicate (3 * length es + 4) (Sub Proceed)) (system_init 0)
     = Inr \<lparr>hub = hub_of es True,
            sub = \<lparr>pc = Returned, sent = es @ [None], dest_closed = True\<rparr>,
            stop = False\<rparr>"
    using replay_closed [of 0 es] by simp
qed

theorem Subscribe_sends_close_marker_witness:
  "run [Sub Proceed, Sub Proceed, Emit (Some (1::nat)), Sub Proceed, Sub Proceed, Sub Proceed,
        Sub Proceed, CloseHub, Sub Proceed, Sub Proceed, Sub Proceed] (system_init 0)
     = Inr \<lparr>hub = hub_of [Some 1] True,
            sub = \<lparr>pc = Returned, sent = [Some 1, None], dest_closed = True\<rparr>,
            stop = False\<rparr>
   \<and> recorded (producer_ops
        [Sub Proceed, Sub Proceed, Emit (Some (1::nat)), Sub Proceed, Sub Proceed, Sub Proceed,
         Sub Proceed, CloseHub, Sub Proceed, Sub Proceed, Sub Proceed]) @ [None]
     = [Some 1, None]"
proof -
  let ?sched = "[Sub Proceed, Sub Proceed, Emit (Some (1::nat)), Sub Proceed, Sub Proceed,
        Sub Proceed, Sub Proceed, CloseHub, Sub Proceed, Sub Proceed, Sub Proceed]"
  let ?y = "\<lparr>hub = hub_of [Some (1::nat)] True,
            sub = \<lparr>pc = Returned, sent = [Some 1, None], dest_closed = True\<rparr>,
            stop = False\<rparr>"
  have r: "run ?sched (system_init 0) = Inr ?y"
    by (simp add: system_init_def subscriber_init_def NewHub_def EmitEvent_def Close_def
          Subscribe_step_def slot_def hub_of_def log_of_def filled_def Let_def)
  from Subscribe_sends_close_marker [of ?sched "[]"] r
  have "dest_closed (sub ?y) \<longrightarrow> sent (sub ?y) = recorded (producer_ops ?sched) @ [None]"
    by auto
  then have "recorded (producer_ops ?sched) @ [None] = [Some 1, None]" by simp
  with r show ?thesis by blast
qed

section \<open>Properties of the check handler\<close>

text \<open>
  Claim C9. The check handler, on a fresh response writer: when the body does not decode, the
  response is status 400 with the error's text, and the only thing done besides is logging
  the error (no call of the tracker or of a resource); when \<open>Init\<close> fails, status 500 with
  the error's text; when \<open>Check\<close> fails, status 500 with the error's text; otherwise the
  JSON encoding of the versions that \<open>Check\<close> returned (with status 200).
\<close>

theorem ServeHTTP_responses:
  "(Decode env req = Inl e \<longrightarrow>
      ServeHTTP env new_writer req
        = (\<lparr>status = Some 400, body = Error e\<rparr>, [LogError ''malformed-request'' e])
      \<and> \<not> list_ex is_tracker_or_resource_call (snd (ServeHTTP env new_writer req)))
   \<and> (Decode env req = Inr input \<and> Init env (input_Type env input) = Inl e \<longrightarrow>
      fst (ServeHTTP env new_writer req) = \<lparr>status = Some 500, body = Error e\<rparr>)
   \<and> (Decode env req = Inr input \<and> Init env (input_Type env input) = Inr resource
        \<and> Check env resource input = Inl e \<longrightarrow>
      fst (ServeHTTP env new_writer req) = \<lparr>status = Some 500, body = Error e\<rparr>)
   \<and> (Decode env req = Inr input \<and> Init env (input_Type env input) = Inr resource
        \<and> Check env resource input = Inr versions \<longrightarrow>
      fst (ServeHTTP env new_writer req)
        = \<lparr>status = Some 200, body = Marshal env versions @ [CHR 0x0A]\<rparr>)"
  by (simp add: ServeHTTP_def new_writer_def Write_def WriteHeader_def StatusBadRequest_def
        StatusInternalServerError_def is_tracker_or_resource_call_def Let_def)

theorem ServeHTTP_responses_witness:
  "Decode sample_check_env ''{'' = Inl (errors_New ''unexpected EOF'')
   \<and> ServeHTTP sample_check_env new_writer ''{''
       = (\<lparr>status = Some 400, body = ''unexpected EOF''\<rparr>,
          [LogError ''malformed-request'' (errors_New ''unexpected EOF'')])
   \<and> Decode sample_check_env ''hg'' = Inr ''hg''
   \<and> Init sample_check_env (input_Type sample_check_env ''hg'')
       = Inl (errors_New ''unknown resource type'')
   \<and> fst (ServeHTTP sample_check_env new_writer ''hg'')
       = \<lparr>status = Some 500, body = ''unknown resource type''\<rparr>
   \<and> Decode sample_check_env ''flaky'' = Inr ''flaky''
   \<and> Init sample_check_env (input_Type sample_check_env ''flaky'') = Inr ''flaky''
   \<and> Check sample_check_env ''flaky'' ''flaky'' = Inl (errors_New ''check failed'')
   \<and> fst (ServeHTTP sample_check_env new_writer ''flaky'')
       = \<lparr>status = Some 500, body = ''check failed''\<rparr>
   \<and> Decode sample_check_env ''git'' = Inr ''git''
   \<and> Init sample_check_env (input_Type sample_check_env ''git'') = Inr ''git''
   \<and> Check sample_check_env ''git'' ''git'' = Inr [''v1'', ''v2'']
   \<and> fst (ServeHTTP sample_check_env new_writer ''git'')
       = \<lparr>status = Some 200, body = ''[v1v2]'' @ [CHR 0x0A]\<rparr>"
proof -
  have d1: "Decode sample_check_env ''{'' = Inl (errors_New ''unexpected EOF'')"
    by (simp add: sample_check_env_def)
  have d2: "Decode sample_check_env ''hg'' = Inr ''hg''"
    and i2: "Init sample_check_env (input_Type sample_check_env ''hg'')
       = Inl (errors_New ''unknown resource type'')"
    by (simp_all add: sample_check_env_def)
  have d3: "Decode sample_check_env ''flaky'' = Inr ''flaky''"
    and i3: "Init sample_check_env (input_Type sample_check_env ''flaky'') = Inr ''flaky''"
    and c3: "Check sample_check_env ''flaky'' ''flaky'' = Inl (errors_New ''check failed'')"
    by (simp_all add: sample_check_env_def)
  have d4: "Decode sample_check_env ''git'' = Inr ''git''"
    and i4: "Init sample_check_env (input_Type sample_check_env ''git'') = Inr ''git''"
    and c4: "Check sample_check_env ''git'' ''git'' = Inr [''v1'', ''v2'']"
    and m4: "Marshal sample_check_env [''v1'', ''v2''] = ''[v1v2]''"
    by (simp_all add: sample_check_env_def)
  note t1 = ServeHTTP_responses [of sample_check_env "''{''" "errors_New ''unexpected EOF''"]
  note t2 = ServeHTTP_responses [of sample_check_env "''hg''" "errors_New ''unknown resource type''" "''hg''"]
  note t3 = ServeHTTP_responses [of sample_check_env "''flaky''" "errors_New ''check failed''" "''flaky''" "''flaky''"]
  note t4 = ServeHTTP_responses [of sample_check_env "''git''" _ "''git''" "''git''" "[''v1'', ''v2'']"]
  from t1 d1 have r1: "ServeHTTP sample_check_env new_writer ''{''
       = (\<lparr>status = Some 400, body = ''unexpected EOF''\<rparr>,
          [LogError ''malformed-request'' (errors_New ''unexpected EOF'')])" by simp
  from t2 d2 i2 have r2: "fst (ServeHTTP sample_check_env new_writer ''hg'')
       = \<lparr>status = Some 500, body = ''unknown resource type''\<rparr>" by simp
  from t3 d3 i3 c3 have r3: "fst (ServeHTTP sample_check_env new_writer ''flaky'')
       = \<lparr>status = Some 500, body = ''check failed''\<rparr>" by simp
  from t4 d4 i4 c4 m4 have r4: "fst (ServeHTTP sample_check_env new_writer ''git'')
       = \<lparr>status = Some 200, body = ''[v1v2]'' @ [CHR 0x0A]\<rparr>" by simp
  from d1 r1 d2 i2 r2 d3 i3 c3 r3 d4 i4 c4 r4 show ?thesis by blast
qed

section \<open>Properties of the builder\<close>

lemma Build_tests:
  "Spawned ''some-handle'' ''./bin/test'' \<in> set (calls (Builder_Build (fakes 0) test_build))"
  "logs (Builder_Build
      ((fakes 0)\<lparr>RunProcess := \<lambda>_ _. Inr (42,
          \<lparr>chunks = [Stdout (''stdout'' @ [CHR 0x0A]), Stderr (''stderr'' @ [CHR 0x0A])],
           ExitStatus = 0\<rparr>)\<rparr>) test_build)
     = \<lparr>StdoutBuffer = ''stdout'' @ [CHR 0x0A], StderrBuffer = ''stderr'' @ [CHR 0x0A],
        Flushed = 1\<rparr>"
  "calls (Builder_Build ((fakes 0)\<lparr>Create := \<lambda>_. Inl disaster\<rparr>) test_build)
     = [Fetched (Source test_build), Created ''some-image-name'']"
  by (simp_all add: Builder_Build_def fakes_def test_build_def with_trailing_separator_def
        stream_chunk_def new_log_streamer_def Let_def)

lemma ExtractingOutputs_all_ok:
  "(\<forall>output \<in> set outputs.
      \<exists>vs. Out env (output_Type output) handle (output_Path output) = Inr vs)
   \<Longrightarrow> \<exists>cs vs. ExtractingOutputs env handle outputs = (cs, Inr vs)"
proof (induction outputs)
  case Nil
  then show ?case by simp
next
  case (Cons x rest)
  then obtain vs where "Out env (output_Type x) handle (output_Path x) = Inr vs"
    by auto
  moreover from Cons obtain cs ws where "ExtractingOutputs env handle rest = (cs, Inr ws)"
    by auto
  ultimately show ?case by simp
qed

lemma ExtractingOutputs_first_error:
  assumes "\<forall>output \<in> set before.
      \<exists>vs. Out env (output_Type output) handle (output_Path output) = Inr vs"
    and "Out env (output_Type failing) handle (output_Path failing) = Inl e"
  shows "\<exists>cs. ExtractingOutputs env handle (before @ failing # after) = (cs, Inl e)"
  using assms(1)
proof (induction before)
  case Nil
  then show ?case using assms(2) by simp
next
  case (Cons x rest)
  then obtain vs where "Out env (output_Type x) handle (output_Path x) = Inr vs"
    by auto
  moreover from Cons obtain cs where
    "ExtractingOutputs env handle (rest @ failing # after) = (cs, Inl e)"
    by auto
  ultimately show ?case by simp
qed

lemma Build_after_run:
  assumes "Fetch env (Source build) = Inr p" and "Create env (build_Image build) = Inr handle"
    and "CopyIn env handle (with_trailing_separator p)
           (with_trailing_separator (source_Path (Source build))) = None"
    and "RunProcess env handle (Script build) = Inr (pid, stream)"
  shows "ExitStatus stream \<noteq> 0 \<Longrightarrow>
           succeeded (Builder_Build env build) = False \<and> err (Builder_Build env build) = None"
    and "ExitStatus stream = 0 \<Longrightarrow> ExtractingOutputs env handle (Outputs build) = (cs, Inr vs)
           \<Longrightarrow> succeeded (Builder_Build env build) = True
               \<and> err (Builder_Build env build) = None"
    and "ExitStatus stream = 0 \<Longrightarrow> ExtractingOutputs env handle (Outputs build) = (cs, Inl e)
           \<Longrightarrow> err (Builder_Build env build) = Some e"
  using assms by (simp_all add: Builder_Build_def Let_def)

text \<open>
  Claim C2, amended. \<open>Build\<close> returns a success flag and an error. When the fetch, the
  container creation, the copy-in or the spawn fails with \<open>e\<close>, it returns false and that
  very \<open>e\<close>. When the process exits with a status other than 0, it returns false and no
  error. When the process exits with status 0 and every configured output is extracted (so
  also when none is configured), it returns true and no error. When the process exits with
  status 0 and the extraction of an output fails with \<open>e\<close>, the outputs before it having
  been extracted, it returns the error \<open>e\<close>.
\<close>

theorem Build_outcome:
  "(Fetch env (Source build) = Inl e \<longrightarrow>
      succeeded (Builder_Build env build) = False \<and> err (Builder_Build env build) = Some e)
   \<and> (Fetch env (Source build) = Inr p \<and> Create env (build_Image build) = Inl e \<longrightarrow>
      succeeded (Builder_Build env build) = False \<and> err (Builder_Build env build) = Some e)
   \<and> (Fetch env (Source build) = Inr p \<and> Create env (build_Image build) = Inr handle
        \<and> CopyIn env handle (with_trailing_separator p)
             (with_trailing_separator (source_Path (Source build))) = Some e \<longrightarrow>
      succeeded (Builder_Build env build) = False \<and> err (Builder_Build env build) = Some e)
   \<and> (Fetch env (Source build) = Inr p \<and> Create env (build_Image build) = Inr handle
        \<and> CopyIn env handle (with_trailing_separator p)
             (with_trailing_separator (source_Path (Source build))) = None
        \<and> RunProcess env handle (Script build) = Inl e \<longrightarrow>
      succeeded (Builder_Build env build) = False \<and> err (Builder_Build env build) = Some e)
   \<and> (Fetch env (Source build) = Inr p \<and> Create env (build_Image build) = Inr handle
        \<and> CopyIn env handle (with_trailing_separator p)
             (with_trailing_separator (source_Path (Source build))) = None
        \<and> RunProcess env handle (Script build) = Inr (pid, stream)
        \<and> ExitStatus stream \<noteq> 0 \<longrightarrow>
      succeeded (Builder_Build env build) = False \<and> err (Builder_Build env build) = None)
   \<and> (Fetch env (Source build) = Inr p \<and> Create env (build_Image build) = Inr handle
        \<and> CopyIn env handle (with_trailing_separator p)
             (with_trailing_separator (source_Path (Source build))) = None
        \<and> RunProcess env handle (Script build) = Inr (pid, stream)
        \<and> ExitStatus stream = 0
        \<and> (\<forall>output \<in> set (Outputs build).
              \<exists>vs. Out env (output_Type output) handle (output_Path output) = Inr vs) \<longrightarrow>
      succeeded (Builder_Build env build) = True \<and> err (Builder_Build env build) = None)
   \<and> (Fetch env (Source build) = Inr p \<and> Create env (build_Image build) = Inr handle
        \<and> CopyIn env handle (with_trailing_separator p)
             (with_trailing_separator (source_Path (Source build))) = None
        \<and> RunProcess env handle (Script build) = Inr (pid, stream)
        \<and> ExitStatus stream = 0
        \<and> Outputs build = before @ failing # after
        \<and> (\<forall>output \<in> set before.
              \<exists>vs. Out env (output_Type output) handle (output_Path output) = Inr vs)
        \<and> Out env (output_Type failing) handle (output_Path failing) = Inl e \<longrightarrow>
      err (Builder_Build env build) = Some e)"
proof (intro conjI impI)
  assume "Fetch env (Source build) = Inl e"
  then show "succeeded (Builder_Build env build) = False"
    and "err (Builder_Build env build) = Some e"
    by (simp_all add: Builder_Build_def)
next
  assume "Fetch env (Source build) = Inr p \<and> Create env (build_Image build) = Inl e"
  then show "succeeded (Builder_Build env build) = False"
    and "err (Builder_Build env build) = Some e"
    by (simp_all add: Builder_Build_def)
next
  assume "Fetch env (Source build) = Inr p \<and> Create env (build_Image build) = Inr handle
        \<and> CopyIn env handle (with_trailing_separator p)
             (with_trailing_separator (source_Path (Source build))) = Some e"
  then show "succeeded (Builder_Build env build) = False"
    and "err (Builder_Build env build) = Some e"
    by (simp_all add: Builder_Build_def Let_def)
next
  assume "Fetch env (Source build) = Inr p \<and> Create env (build_Image build) = Inr handle
        \<and> CopyIn env handle (with_trailing_separator p)
             (with_trailing_separator (source_Path (Source build))) = None
        \<and> RunProcess env handle (Script build) = Inl e"
  then show "succeeded (Builder_Build env build) = False"
    and "err (Builder_Build env build) = Some e"
    by (simp_all add: Builder_Build_def Let_def)
next
  assume "Fetch env (Source build) = Inr p \<and> Create env (build_Image build) = Inr handle
        \<and> CopyIn env handle (with_trailing_separator p)
             (with_trailing_separator (source_Path (Source build))) = None
        \<and> RunProcess env handle (Script build) = Inr (pid, stream)
        \<and> ExitStatus stream \<noteq> 0"
  then show "succeeded (Builder_Build env build) = False"
    and "err (Builder_Build env build) = None"
    using Build_after_run(1) [of env build p handle pid stream] by simp_all
next
  assume a: "Fetch env (Source build) = Inr p \<and> Create env (build_Image build) = Inr handle
        \<and> CopyIn env handle (with_trailing_separator p)
             (with_trailing_separator (source_Path (Source build))) = None
        \<and> RunProcess env handle (Script build) = Inr (pid, stream)
        \<and> ExitStatus stream = 0
        \<and> (\<forall>output \<in> set (Outputs build).
              \<exists>vs. Out env (output_Type output) handle (output_Path output) = Inr vs)"
  then obtain cs vs where "ExtractingOutputs env handle (Outputs build) = (cs, Inr vs)"
    using ExtractingOutputs_all_ok [of "Outputs build" env handle] by blast
  with a show "succeeded (Builder_Build env build) = True"
    and "err (Builder_Build env build) = None"
    using Build_after_run(2) [of env build p handle pid stream cs vs] by simp_all
next
  assume a: "Fetch env (Source build) = Inr p \<and> Create env (build_Image build) = Inr handle
        \<and> CopyIn env handle (with_trailing_separator p)
             (with_trailing_separator (source_Path (Source build))) = None
        \<and> RunProcess env handle (Script build) = Inr (pid, stream)
        \<and> ExitStatus stream = 0
        \<and> Outputs build = before @ failing # after
        \<and> (\<forall>output \<in> set before.
              \<exists>vs. Out env (output_Type output) handle (output_Path output) = Inr vs)
        \<and> Out env (output_Type failing) handle (output_Path failing) = Inl e"
  then obtain cs where "ExtractingOutputs env handle (Outputs build) = (cs, Inl e)"
    using ExtractingOutputs_first_error [of before env handle failing e after] by auto
  with a show "err (Builder_Build env build) = Some e"
    using Build_after_run(3) [of env build p handle pid stream cs e] by simp
qed

theorem Build_outcome_witness:
  "succeeded (Builder_Build (fakes 0) test_build) = True
   \<and> err (Builder_Build (fakes 0) test_build) = None
   \<and> succeeded (Builder_Build (fakes 2) test_build) = False
   \<and> err (Builder_Build (fakes 2) test_build) = None
   \<and> succeeded (Builder_Build ((fakes 0)\<lparr>RunProcess := \<lambda>_ _. Inl disaster\<rparr>) test_build) = False
   \<and> err (Builder_Build ((fakes 0)\<lparr>RunProcess := \<lambda>_ _. Inl disaster\<rparr>) test_build) = Some disaster
   \<and> succeeded (Builder_Build ((fakes 0)\<lparr>Create := \<lambda>_. Inl disaster\<rparr>) test_build) = False
   \<and> err (Builder_Build ((fakes 0)\<lparr>Create := \<lambda>_. Inl disaster\<rparr>) test_build) = Some disaster
   \<and> succeeded (Builder_Build ((fakes 0)\<lparr>Fetch := \<lambda>_. Inl disaster\<rparr>) test_build) = False
   \<and> err (Builder_Build ((fakes 0)\<lparr>Fetch := \<lambda>_. Inl disaster\<rparr>) test_build) = Some disaster
   \<and> succeeded (Builder_Build ((fakes 0)\<lparr>CopyIn := \<lambda>_ _ _. Some disaster\<rparr>) test_build) = False
   \<and> err (Builder_Build ((fakes 0)\<lparr>CopyIn := \<lambda>_ _ _. Some disaster\<rparr>) test_build) = Some disaster
   \<and> succeeded (Builder_Build (fakes 0) test_build_with_output) = True
   \<and> err (Builder_Build (fakes 0) test_build_with_output) = None
   \<and> Out ((fakes 0)\<lparr>Out := \<lambda>_ _ _. Inl disaster\<rparr>) ''git'' ''some-handle'' ''some/output/path''
       = Inl disaster
   \<and> err (Builder_Build ((fakes 0)\<lparr>Out := \<lambda>_ _ _. Inl disaster\<rparr>) test_build_with_output)
       = Some disaster"
proof -
  let ?run = "(fakes 0)\<lparr>RunProcess := \<lambda>_ _. Inl disaster\<rparr>"
  let ?create = "(fakes 0)\<lparr>Create := \<lambda>_. Inl disaster\<rparr>"
  let ?fetch = "(fakes 0)\<lparr>Fetch := \<lambda>_. Inl disaster\<rparr>"
  let ?copy = "(fakes 0)\<lparr>CopyIn := \<lambda>_ _ _. Some disaster\<rparr>"
  let ?out = "(fakes 0)\<lparr>Out := \<lambda>_ _ _. Inl disaster\<rparr>"
  let ?output = "\<lparr>output_Type = ''git'', output_Path = ''some/output/path''\<rparr>"
  have b: "Source test_build_with_output = Source test_build"
    "build_Image test_build_with_output = build_Image test_build"
    "Script test_build_with_output = Script test_build"
    "Outputs test_build_with_output = [?output]" "Outputs test_build = []"
    by (simp_all add: test_build_with_output_def test_build_def)
  have ok: "Fetch (fakes s) (Source test_build) = Inr ''/path/on/disk''"
    "Create (fakes s) (build_Image test_build) = Inr ''some-handle''"
    "CopyIn (fakes s) ''some-handle'' (with_trailing_separator ''/path/on/disk'')
       (with_trailing_separator (source_Path (Source test_build))) = None"
    "RunProcess (fakes s) ''some-handle'' (Script test_build)
       = Inr (42, \<lparr>chunks = [], ExitStatus = s\<rparr>)"
    "Out (fakes s) ''git'' ''some-handle'' ''some/output/path'' = Inr [''some-version'']" for s
    by (simp_all add: fakes_def)
  have bad: "Out ?out ''git'' ''some-handle'' ''some/output/path'' = Inl disaster"
    by simp
  have "succeeded (Builder_Build (fakes 0) test_build) = True
      \<and> err (Builder_Build (fakes 0) test_build) = None"
    using Build_outcome [where env = "fakes 0" and build = test_build
        and p = "''/path/on/disk''" and handle = "''some-handle''" and pid = 42
        and stream = "\<lparr>chunks = [], ExitStatus = 0\<rparr>"] ok [of 0] b
    by simp
  moreover have "succeeded (Builder_Build (fakes 2) test_build) = False
      \<and> err (Builder_Build (fakes 2) test_build) = None"
    using Build_outcome [where env = "fakes 2" and build = test_build
        and p = "''/path/on/disk''" and handle = "''some-handle''" and pid = 42
        and stream = "\<lparr>chunks = [], ExitStatus = 2\<rparr>"] ok [of 2]
    by simp
  moreover have "succeeded (Builder_Build ?run test_build) = False
      \<and> err (Builder_Build ?run test_build) = Some disaster"
    using Build_outcome [where env = ?run and build = test_build and e = disaster
        and p = "''/path/on/disk''" and handle = "''some-handle''"]
    by (simp add: fakes_def)
  moreover have "succeeded (Builder_Build ?create test_build) = False
      \<and> err (Builder_Build ?create test_build) = Some disaster"
    using Build_outcome [where env = ?create and build = test_build and e = disaster
        and p = "''/path/on/disk''"]
    by (simp add: fakes_def)
  moreover have "succeeded (Builder_Build ?fetch test_build) = False
      \<and> err (Builder_Build ?fetch test_build) = Some disaster"
    using Build_outcome [where env = ?fetch and build = test_build and e = disaster]
    by (simp add: fakes_def)
  moreover have "succeeded (Builder_Build ?copy test_build) = False
      \<and> err (Builder_Build ?copy test_build) = Some disaster"
    using Build_outcome [where env = ?copy and build = test_build and e = disaster
        and p = "''/path/on/disk''" and handle = "''some-handle''"]
    by (simp add: fakes_def)
  moreover have "succeeded (Builder_Build (fakes 0) test_build_with_output) = True
      \<and> err (Builder_Build (fakes 0) test_build_with_output) = None"
    using Build_outcome [where env = "fakes 0" and build = test_build_with_output
        and p = "''/path/on/disk''" and handle = "''some-handle''" and pid = 42
        and stream = "\<lparr>chunks = [], ExitStatus = 0\<rparr>"] ok [of 0] b
    by simp
  moreover have "err (Builder_Build ?out test_build_with_output) = Some disaster"
    using Build_outcome [where env = ?out and build = test_build_with_output
        and e = disaster and p = "''/path/on/disk''" and handle = "''some-handle''"
        and pid = 42 and stream = "\<lparr>chunks = [], ExitStatus = 0\<rparr>"
        and before = "[]" and failing = ?output and after = "[]"] b
    by (simp add: fakes_def)
  ultimately show ?thesis using bad by blast
qed

text \<open>
  Claim C2 as stated, that a process exiting with status 0 gives true and no error, fails
  where an output is configured and its extraction fails: the process of the test exits
  with 0 and \<open>Build\<close> returns the error of the extraction.
\<close>

theorem Build_exit_zero_counterexample:
  "RunProcess ((fakes 0)\<lparr>Out := \<lambda>_ _ _. Inl disaster\<rparr>) ''some-handle''
      (Script test_build_with_output) = Inr (42, \<lparr>chunks = [], ExitStatus = 0\<rparr>)
   \<and> err (Builder_Build ((fakes 0)\<lparr>Out := \<lambda>_ _ _. Inl disaster\<rparr>) test_build_with_output)
       = Some disaster
   \<and> \<not> (succeeded (Builder_Build ((fakes 0)\<lparr>Out := \<lambda>_ _ _. Inl disaster\<rparr>)
              test_build_with_output) = True
         \<and> err (Builder_Build ((fakes 0)\<lparr>Out := \<lambda>_ _ _. Inl disaster\<rparr>)
              test_build_with_output) = None)"
  by (simp add: Builder_Build_def fakes_def test_build_with_output_def test_build_def
        with_trailing_separator_def Let_def)

lemma with_trailing_separator_ends:
  "with_trailing_separator p \<noteq> [] \<and> last (with_trailing_separator p) = CHR ''/''"
  by (simp add: with_trailing_separator_def)

lemma with_trailing_separator_cases:
  "with_trailing_separator p = p \<or> with_trailing_separator p = p @ ''/''"
  by (simp add: with_trailing_separator_def)

text \<open>
  Claim C8. When the fetch yields a path and the container is created, \<open>Build\<close> copies in,
  to that container, from the fetched path to the build's destination path, each ending in a
  separator: the path itself when it ended in one already, the path with a separator added
  otherwise. The test's paths give a copy-in from \<open>/path/on/disk/\<close> to
  \<open>some/source/path/\<close>.
\<close>

theorem Build_copies_in_normalised:
  assumes "Fetch env (Source build) = Inr p" and "Create env (build_Image build) = Inr handle"
  shows "\<exists>src dst. CopiedIn handle src dst \<in> set (calls (Builder_Build env build))
           \<and> src \<noteq> [] \<and> last src = CHR ''/'' \<and> (src = p \<or> src = p @ ''/'')
           \<and> dst \<noteq> [] \<and> last dst = CHR ''/''
           \<and> (dst = source_Path (Source build) \<or> dst = source_Path (Source build) @ ''/'')"
proof -
  let ?src = "with_trailing_separator p"
  let ?dst = "with_trailing_separator (source_Path (Source build))"
  have "CopiedIn handle ?src ?dst \<in> set (calls (Builder_Build env build))"
    using assms
    by (simp add: Builder_Build_def Let_def split: option.splits sum.splits prod.splits)
  with with_trailing_separator_ends [of p] with_trailing_separator_cases [of p]
    with_trailing_separator_ends [of "source_Path (Source build)"]
    with_trailing_separator_cases [of "source_Path (Source build)"]
  show ?thesis by blast
qed

theorem Build_copies_in_normalised_witness:
  "Fetch (fakes 0) (Source test_build) = Inr ''/path/on/disk''
   \<and> Create (fakes 0) (build_Image test_build) = Inr ''some-handle''
   \<and> CopiedIn ''some-handle'' ''/path/on/disk/'' ''some/source/path/''
        \<in> set (calls (Builder_Build (fakes 0) test_build))"
proof -
  have a: "Fetch (fakes 0) (Source test_build) = Inr ''/path/on/disk''"
    and b: "Create (fakes 0) (build_Image test_build) = Inr ''some-handle''"
    by (simp_all add: fakes_def)
  from Build_copies_in_normalised [OF a b]
  obtain src dst where c: "CopiedIn ''some-handle'' src dst
        \<in> set (calls (Builder_Build (fakes 0) test_build))"
    and s: "last src = CHR ''/''" "src = ''/path/on/disk'' \<or> src = ''/path/on/disk'' @ ''/''"
    and d: "last dst = CHR ''/''"
       "dst = source_Path (Source test_build) \<or> dst = source_Path (Source test_build) @ ''/''"
    by blast
  from s have "src = ''/path/on/disk/''" by auto
  moreover from d have "dst = ''some/source/path/''" by (auto simp: test_build_def)
  ultimately show ?thesis using a b c by simp
qed

end
